theory Spec2Isabelle
  imports Main "HOL-Library.AList" "HOL-Library.Sublist" "HOL-Library.Multiset"
begin

section \<open>The task runner of task.go\<close>

text \<open>
  The theory embeds \<^verbatim>\<open>task.go\<close>: \<^verbatim>\<open>Run\<close>, \<^verbatim>\<open>RunTask\<close>, \<^verbatim>\<open>runDeps\<close>,
  \<^verbatim>\<open>isUpToDate\<close>, \<^verbatim>\<open>runCommand\<close> and \<^verbatim>\<open>getEnviron\<close>.

  Functions that \<^verbatim>\<open>task.go\<close> calls but does not define (\<^verbatim>\<open>handleVariables\<close>,
  \<^verbatim>\<open>ReplaceVariables\<close>, \<^verbatim>\<open>execext.RunCommand\<close>, \<^verbatim>\<open>readTaskfile\<close>, \<^verbatim>\<open>HasCyclicDep\<close>,
  \<^verbatim>\<open>WatchTasks\<close>, globbing and \<^verbatim>\<open>os.Stat\<close>) are fields of the record \<open>ext\<close>: every
  theorem holds for all of their behaviours.

  The process state is passed explicitly: the outside world (files and everything else a
  spawned command can change) is a value of a type variable \<open>'w\<close>, the process environment
  is an association list, and a trace records what the process prints and which commands
  it spawns.

  \<^verbatim>\<open>RunTask\<close> calls itself through dependencies and through sub-task commands, and nothing
  in \<^verbatim>\<open>task.go\<close> bounds that recursion, so it takes fuel: \<open>OutOfFuel\<close> stands for a call
  that does not return.
\<close>

subsection \<open>Strings\<close>

text \<open>\<^verbatim>\<open>strings.HasPrefix\<close> and \<^verbatim>\<open>strings.TrimPrefix\<close>.\<close>

definition HasPrefix :: "string \<Rightarrow> string \<Rightarrow> bool" where
  "HasPrefix s p = (take (length p) s = p)"

definition TrimPrefix :: "string \<Rightarrow> string \<Rightarrow> string" where
  "TrimPrefix s p = (if HasPrefix s p then drop (length p) s else s)"

text \<open>
  The UTF-8 encodings of the code points for which \<^verbatim>\<open>unicode.IsSpace\<close> holds: U+0009 to
  U+000D, U+0020, U+0085, U+00A0, U+1680, U+2000 to U+200A, U+2028, U+2029, U+202F, U+205F
  and U+3000. A Go string is a byte sequence, as a \<open>string\<close> is here.
\<close>

definition space_runes :: "string list" where
  "space_runes =
     [[CHR 0x09], [CHR 0x0A], [CHR 0x0B], [CHR 0x0C], [CHR 0x0D], [CHR 0x20],
      [CHR 0xC2, CHR 0x85], [CHR 0xC2, CHR 0xA0],
      [CHR 0xE1, CHR 0x9A, CHR 0x80],
      [CHR 0xE2, CHR 0x80, CHR 0x80], [CHR 0xE2, CHR 0x80, CHR 0x81],
      [CHR 0xE2, CHR 0x80, CHR 0x82], [CHR 0xE2, CHR 0x80, CHR 0x83],
      [CHR 0xE2, CHR 0x80, CHR 0x84], [CHR 0xE2, CHR 0x80, CHR 0x85],
      [CHR 0xE2, CHR 0x80, CHR 0x86], [CHR 0xE2, CHR 0x80, CHR 0x87],
      [CHR 0xE2, CHR 0x80, CHR 0x88], [CHR 0xE2, CHR 0x80, CHR 0x89],
      [CHR 0xE2, CHR 0x80, CHR 0x8A],
      [CHR 0xE2, CHR 0x80, CHR 0xA8], [CHR 0xE2, CHR 0x80, CHR 0xA9],
      [CHR 0xE2, CHR 0x80, CHR 0xAF], [CHR 0xE2, CHR 0x81, CHR 0x9F],
      [CHR 0xE3, CHR 0x80, CHR 0x80]]"

text \<open>Removing, from the front of a string, every leading occurrence of one of the given
  non-empty byte sequences.\<close>

function strip_front :: "string list \<Rightarrow> string \<Rightarrow> string" where
  "strip_front ps s =
     (case find (\<lambda>p. p \<noteq> [] \<and> prefix p s) ps of
        Some p \<Rightarrow> strip_front ps (drop (length p) s)
      | None \<Rightarrow> s)"
  by pat_completeness auto
termination
proof (relation "measure (\<lambda>(ps, s). length s)")
  show "wf (measure (\<lambda>(ps, s). length s))" by simp
next
  fix ps :: "string list" and s p :: string
  assume "find (\<lambda>p. p \<noteq> [] \<and> prefix p s) ps = Some p"
  then have "p \<noteq> []" and "prefix p s"
    by (auto simp: find_Some_iff)
  then have "s \<noteq> []" by auto
  with \<open>p \<noteq> []\<close> show "((ps, drop (length p) s), (ps, s)) \<in> measure (\<lambda>(ps, s). length s)"
    by simp
qed

declare strip_front.simps [simp del]

text \<open>\<^verbatim>\<open>strings.TrimSpace\<close>: white space is removed at both ends.\<close>

definition TrimSpace :: "string \<Rightarrow> string" where
  "TrimSpace s = rev (strip_front (map rev space_runes) (rev (strip_front space_runes s)))"

text \<open>Trimming trailing white space only, as the specification words the effect of
  \<open>Set\<close>; \<^verbatim>\<open>task.go\<close> does not use it. (\<^verbatim>\<open>strings.TrimRightFunc\<close> with
  \<^verbatim>\<open>unicode.IsSpace\<close>.)\<close>

definition trim_trailing_space :: "string \<Rightarrow> string" where
  "trim_trailing_space s = rev (strip_front (map rev space_runes) (rev s))"

subsection \<open>Data\<close>

text \<open>A \<^verbatim>\<open>time.Time\<close> is an instant, counted from the zero instant of Go (January 1 of
  year 1, UTC); \<^verbatim>\<open>IsZero\<close> holds of that instant alone.\<close>

type_synonym time = int

definition IsZero :: "time \<Rightarrow> bool" where
  "IsZero t = (t = 0)"

definition After :: "time \<Rightarrow> time \<Rightarrow> bool" where
  "After t u = (u < t)"

text \<open>The struct \<^verbatim>\<open>Task\<close>. A Go map is an association list with distinct keys, in the
  order in which \<^verbatim>\<open>range\<close> visits it (an order Go leaves open); \<open>Env\<close> may be the nil
  map, which is \<open>None\<close>.\<close>

record Task =
  Cmds :: "string list"
  Deps :: "string list"
  Desc :: string
  Sources :: "string list"
  Generates :: "string list"
  Dir :: string
  Vars :: "(string \<times> string) list"
  Set :: string
  Env :: "(string \<times> string) list option"

text \<open>The errors of \<^verbatim>\<open>task.go\<close>, and the errors that the functions it calls return.\<close>

datatype error =
    taskNotFoundError string
  | taskRunError string error
  | externalError string

text \<open>The package variables \<^verbatim>\<open>Force\<close>, \<^verbatim>\<open>Watch\<close> and \<^verbatim>\<open>Tasks\<close>.\<close>

record globals =
  Force :: bool
  Watch :: bool
  Tasks :: "string \<rightharpoonup> Task"

text \<open>A context is known by whether it has been cancelled.\<close>

type_synonym ctx = bool

definition Background :: ctx where
  "Background = False"

text \<open>\<^verbatim>\<open>execext.RunCommandOptions\<close>; \<^verbatim>\<open>Stdin\<close> and \<^verbatim>\<open>Stderr\<close> are always those of
  the process. A nil \<^verbatim>\<open>Env\<close> slice is \<open>None\<close>.\<close>

datatype stdout = osStdout | buff

record RunCommandOptions =
  optContext :: ctx
  optCommand :: string
  optDir :: string
  optEnv :: "string list option"
  optStdout :: stdout

text \<open>What the process does that can be seen from outside: the lines it logs or prints,
  and the commands it hands to \<^verbatim>\<open>execext.RunCommand\<close>, each with the text the command
  wrote to its standard output.\<close>

datatype event =
    NoArgumentLogged
  | UpToDateLogged string
  | CommandLogged string
  | ErrorPrinted error
  | HelpPrinted
  | Spawned RunCommandOptions string

record 'w state =
  world :: 'w
  environ :: "(string \<times> string) list"
  trace :: "event list"

datatype 'a outcome = Done 'a | Panic | OutOfFuel

type_synonym vars = "(string \<times> string) list"

type_synonym 'w run = "(error option \<times> 'w state) outcome"

text \<open>
  The functions that \<^verbatim>\<open>task.go\<close> uses and does not define are parameters.
  \<^item> \<open>handleVariables\<close>: by the specification it resolves the \<open>Vars\<close> of the task, afresh at
    every call, from the state of the process; so it is given \<open>Vars\<close>, the environment and
    the world, and returns the resolved variables or an error.
  \<^item> \<open>ReplaceVariables\<close> substitutes variables into a template, or fails.
  \<^item> \<open>RunCommand\<close> is \<^verbatim>\<open>execext.RunCommand\<close>: from the options, the environment of the
    process and the world it gives the error, the text written to standard output and the
    new world.
  \<^item> \<open>Glob\<close> gives the files a pattern matches, \<open>ModTime\<close> the modification time of a
    file; both may fail.
  \<^item> \<open>pick\<close> is the scheduler of the dependency goroutines: of \<open>n\<close> units not yet run it
    names the one to run next (taken modulo \<open>n\<close>).
  \<^item> \<open>readTaskfile\<close>, \<open>HasCyclicDep\<close> and \<open>WatchTasks\<close> are the functions of these names that
    \<^verbatim>\<open>Run\<close> calls.
\<close>

record 'w ext =
  handleVariables :: "(string \<times> string) list \<Rightarrow> (string \<times> string) list \<Rightarrow> 'w \<Rightarrow> error + vars"
  ReplaceVariables :: "string \<Rightarrow> vars \<Rightarrow> error + string"
  RunCommand :: "RunCommandOptions \<Rightarrow> (string \<times> string) list \<Rightarrow> 'w \<Rightarrow> error option \<times> string \<times> 'w"
  Glob :: "'w \<Rightarrow> string \<Rightarrow> error + string list"
  ModTime :: "'w \<Rightarrow> string \<Rightarrow> error + time"
  pick :: "'w state \<Rightarrow> nat \<Rightarrow> nat"
  readTaskfile :: "'w \<Rightarrow> error + (string \<rightharpoonup> Task)"
  HasCyclicDep :: "(string \<rightharpoonup> Task) \<Rightarrow> bool"
  WatchTasks :: "globals \<Rightarrow> string list \<Rightarrow> 'w state \<Rightarrow> 'w run"

definition emit :: "event list \<Rightarrow> 'w state \<Rightarrow> 'w state" where
  "emit es s = s\<lparr>trace := trace s @ es\<rparr>"

subsection \<open>The process environment\<close>

text \<open>\<^verbatim>\<open>os.Environ\<close> lists the environment as \<^verbatim>\<open>key=value\<close> strings.\<close>

definition os_Environ :: "(string \<times> string) list \<Rightarrow> string list" where
  "os_Environ env = map (\<lambda>(k, v). k @ ''='' @ v) env"

text \<open>\<^verbatim>\<open>os.Setenv\<close> refuses an empty key, a key with \<^verbatim>\<open>=\<close> or a NUL byte, and a value
  with a NUL byte; \<^verbatim>\<open>runCommand\<close> ignores the error it returns, so that the environment
  then stays as it was.\<close>

definition Setenv_ok :: "string \<Rightarrow> string \<Rightarrow> bool" where
  "Setenv_ok k v = (k \<noteq> [] \<and> CHR ''='' \<notin> set k \<and> CHR 0x00 \<notin> set k \<and> CHR 0x00 \<notin> set v)"

definition os_Setenv :: "string \<Rightarrow> string \<Rightarrow> (string \<times> string) list \<Rightarrow> (string \<times> string) list" where
  "os_Setenv k v env = (if Setenv_ok k v then AList.update k v env else env)"

definition os_Getenv :: "(string \<times> string) list \<Rightarrow> string \<Rightarrow> string option" where
  "os_Getenv env k = map_of env k"

subsection \<open>The freshness check\<close>

text \<open>
  \<^verbatim>\<open>getPatternsMaxTime\<close> and \<^verbatim>\<open>getPatternsMinTime\<close> are called by \<^verbatim>\<open>isUpToDate\<close> and
  are not in \<^verbatim>\<open>task.go\<close>; the definitions of this subsection, up to \<^verbatim>\<open>isUpToDate\<close>, are
  those of the specification.
\<close>

text \<open>Modelled from the spec: the modification times of the files of a list, read with
  \<^verbatim>\<open>os.Stat\<close> (missing from the sources, as all of \<^verbatim>\<open>getPatternsMaxTime\<close> and
  \<^verbatim>\<open>getPatternsMinTime\<close>); an error reading a time is an error of the whole.\<close>

fun file_times :: "'w ext \<Rightarrow> 'w \<Rightarrow> string list \<Rightarrow> error + time list" where
  "file_times x w [] = Inr []"
| "file_times x w (f # fs) =
     (case ModTime x w f of
        Inl err \<Rightarrow> Inl err
      | Inr t \<Rightarrow> (case file_times x w fs of Inl err \<Rightarrow> Inl err | Inr ts \<Rightarrow> Inr (t # ts)))"

text \<open>Modelled from the spec: the modification times of all files matched by all patterns
  of a list (the matching is missing from the sources); an error resolving a pattern is an
  error of the whole.\<close>

fun matched_times :: "'w ext \<Rightarrow> 'w \<Rightarrow> string list \<Rightarrow> error + time list" where
  "matched_times x w [] = Inr []"
| "matched_times x w (p # ps) =
     (case Glob x w p of
        Inl err \<Rightarrow> Inl err
      | Inr fs \<Rightarrow>
          (case file_times x w fs of
             Inl err \<Rightarrow> Inl err
           | Inr ts \<Rightarrow>
               (case matched_times x w ps of Inl err \<Rightarrow> Inl err | Inr us \<Rightarrow> Inr (ts @ us))))"

text \<open>Modelled from the spec: the latest and the earliest of a list of times (missing from
  the sources). \<^verbatim>\<open>isUpToDate\<close> finds out with \<^verbatim>\<open>IsZero\<close> that no file matched: of no time
  at all, both are the zero time.\<close>

definition latest :: "time list \<Rightarrow> time" where
  "latest ts = (case ts of [] \<Rightarrow> 0 | t # us \<Rightarrow> fold max us t)"

definition earliest :: "time list \<Rightarrow> time" where
  "earliest ts = (case ts of [] \<Rightarrow> 0 | t # us \<Rightarrow> fold min us t)"

text \<open>Modelled from the spec: \<^verbatim>\<open>getPatternsMaxTime\<close> (missing from the sources) is the
  latest modification time among all files matched by all the patterns.\<close>

definition getPatternsMaxTime :: "'w ext \<Rightarrow> 'w \<Rightarrow> string list \<Rightarrow> error + time" where
  "getPatternsMaxTime x w patterns =
     (case matched_times x w patterns of Inl err \<Rightarrow> Inl err | Inr ts \<Rightarrow> Inr (latest ts))"

text \<open>Modelled from the spec: \<^verbatim>\<open>getPatternsMinTime\<close> (missing from the sources) is the
  earliest modification time among all files matched by all the patterns.\<close>

definition getPatternsMinTime :: "'w ext \<Rightarrow> 'w \<Rightarrow> string list \<Rightarrow> error + time" where
  "getPatternsMinTime x w patterns =
     (case matched_times x w patterns of Inl err \<Rightarrow> Inl err | Inr ts \<Rightarrow> Inr (earliest ts))"

text \<open>\<^verbatim>\<open>isUpToDate\<close>, as \<^verbatim>\<open>task.go\<close> has it.\<close>

definition isUpToDate :: "'w ext \<Rightarrow> Task \<Rightarrow> 'w \<Rightarrow> bool" where
  "isUpToDate x t w =
     (if length (Sources t) = 0 \<or> length (Generates t) = 0 then False
      else
        (case getPatternsMaxTime x w (Sources t) of
           Inl err \<Rightarrow> False
         | Inr sourcesMaxTime \<Rightarrow>
             if IsZero sourcesMaxTime then False
             else
               (case getPatternsMinTime x w (Generates t) of
                  Inl err \<Rightarrow> False
                | Inr generatesMinTime \<Rightarrow>
                    if IsZero generatesMinTime then False
                    else After generatesMinTime sourcesMaxTime)))"

subsection \<open>Commands\<close>

text \<open>The loop of \<^verbatim>\<open>getEnviron\<close> over the pairs of \<open>Env\<close>: the value is substituted
  before the key, and the first failure ends the loop.\<close>

fun appendEnv :: "'w ext \<Rightarrow> vars \<Rightarrow> (string \<times> string) list \<Rightarrow> string list \<Rightarrow> error + string list" where
  "appendEnv x vs [] envs = Inr envs"
| "appendEnv x vs ((k, v) # kvs) envs =
     (case ReplaceVariables x v vs of
        Inl err \<Rightarrow> Inl err
      | Inr replacedValue \<Rightarrow>
          (case ReplaceVariables x k vs of
             Inl err \<Rightarrow> Inl err
           | Inr replacedKey \<Rightarrow>
               appendEnv x vs kvs (envs @ [replacedKey @ ''='' @ replacedValue])))"

definition getEnviron :: "'w ext \<Rightarrow> Task \<Rightarrow> vars \<Rightarrow> 'w state \<Rightarrow> error + string list option" where
  "getEnviron x t vs s =
     (case Env t of
        None \<Rightarrow> Inr None
      | Some kvs \<Rightarrow>
          (case appendEnv x vs kvs (os_Environ (environ s)) of
             Inl err \<Rightarrow> Inl err
           | Inr envs \<Rightarrow> Inr (Some envs)))"

text \<open>One call of \<^verbatim>\<open>execext.RunCommand\<close>: the spawn is recorded with what the command
  wrote, and the world is the one the command leaves.\<close>

definition spawn :: "'w ext \<Rightarrow> RunCommandOptions \<Rightarrow> 'w state \<Rightarrow> error option \<times> string \<times> 'w state" where
  "spawn x opts s =
     (case RunCommand x opts (environ s) (world s) of
        (err, out, w) \<Rightarrow> (err, out, emit [Spawned opts out] (s\<lparr>world := w\<rparr>)))"

text \<open>\<^verbatim>\<open>runCommand\<close>. The argument \<open>rt\<close> is the \<^verbatim>\<open>RunTask\<close> it calls for a sub-task
  command. \<^verbatim>\<open>t.Cmds[i]\<close> panics when \<open>i\<close> is out of range.\<close>

definition runCommand ::
  "'w ext \<Rightarrow> (ctx \<Rightarrow> string \<Rightarrow> 'w state \<Rightarrow> 'w run) \<Rightarrow> ctx \<Rightarrow> Task \<Rightarrow> nat \<Rightarrow> 'w state \<Rightarrow> 'w run" where
  "runCommand x rt c t i s =
     (case handleVariables x (Vars t) (environ s) (world s) of
        Inl err \<Rightarrow> Done (Some err, s)
      | Inr vs \<Rightarrow>
          if length (Cmds t) \<le> i then Panic
          else
            (case ReplaceVariables x (Cmds t ! i) vs of
               Inl err \<Rightarrow> Done (Some err, s)
             | Inr cmd \<Rightarrow>
                 if HasPrefix cmd ''^'' then rt c (TrimPrefix cmd ''^'') s
                 else
                   (case ReplaceVariables x (Dir t) vs of
                      Inl err \<Rightarrow> Done (Some err, s)
                    | Inr dir \<Rightarrow>
                        (case getEnviron x t vs s of
                           Inl err \<Rightarrow> Done (Some err, s)
                         | Inr envs \<Rightarrow>
                             if Set t = []
                             then
                               (case spawn x \<lparr>optContext = c, optCommand = cmd, optDir = dir,
                                        optEnv = envs, optStdout = osStdout\<rparr>
                                        (emit [CommandLogged cmd] s) of
                                  (err, out, s') \<Rightarrow> Done (err, s'))
                             else
                               (case spawn x \<lparr>optContext = c, optCommand = cmd, optDir = dir,
                                        optEnv = envs, optStdout = buff\<rparr> s of
                                  (Some err, out, s') \<Rightarrow> Done (Some err, s')
                                | (None, out, s') \<Rightarrow>
                                    Done (None,
                                      s'\<lparr>environ := os_Setenv (Set t) (TrimSpace out) (environ s')\<rparr>))))))"

subsection \<open>Dependencies\<close>

text \<open>
  \<^verbatim>\<open>runDeps\<close> starts one goroutine for each entry of \<open>Deps\<close> in an \<^verbatim>\<open>errgroup\<close> with a
  context of its own, and waits for all of them. Here the goroutines run one after the
  other, each as a whole, in the order the scheduler \<open>pick\<close> chooses; \<open>run_units\<close> returns
  what every unit returned, in the order in which they finished. The context of the group
  is cancelled once a unit has returned an error (or when the context it comes from is),
  and \<^verbatim>\<open>Wait\<close> gives the first error returned.
\<close>

definition Wait :: "(string \<times> error option) list \<Rightarrow> error option" where
  "Wait rs = (case find (\<lambda>r. r \<noteq> None) (map snd rs) of Some r \<Rightarrow> r | None \<Rightarrow> None)"

definition unit ::
  "'w ext \<Rightarrow> (ctx \<Rightarrow> string \<Rightarrow> 'w state \<Rightarrow> 'w run) \<Rightarrow> vars \<Rightarrow> string \<Rightarrow> ctx \<Rightarrow> 'w state \<Rightarrow> 'w run" where
  "unit x rt vs d c s =
     (case ReplaceVariables x d vs of
        Inl err \<Rightarrow> Done (Some err, s)
      | Inr dep \<Rightarrow> rt c dep s)"

function run_units ::
  "'w ext \<Rightarrow> (ctx \<Rightarrow> string \<Rightarrow> 'w state \<Rightarrow> 'w run) \<Rightarrow> ctx \<Rightarrow> vars \<Rightarrow> string list \<Rightarrow>
     (string \<times> error option) list \<Rightarrow> 'w state \<Rightarrow> ((string \<times> error option) list \<times> 'w state) outcome" where
  "run_units x rt c vs ds rs s =
     (if ds = [] then Done (rs, s)
      else
        (let j = pick x s (length ds) mod length ds in
           (case unit x rt vs (ds ! j) (c \<or> Wait rs \<noteq> None) s of
              Done (r, s') \<Rightarrow>
                run_units x rt c vs (take j ds @ drop (Suc j) ds) (rs @ [(ds ! j, r)]) s'
            | Panic \<Rightarrow> Panic
            | OutOfFuel \<Rightarrow> OutOfFuel)))"
  by pat_completeness auto
termination
proof (relation "measure (\<lambda>(x, rt, c, vs, ds, rs, s). length ds)")
  show "wf (measure (\<lambda>(x :: 'w ext, rt :: ctx \<Rightarrow> string \<Rightarrow> 'w state \<Rightarrow> 'w run, c :: ctx,
      vs :: vars, ds :: string list, rs :: (string \<times> error option) list, s :: 'w state). length ds))"
    by simp
next
  fix x :: "'w ext" and ds :: "string list" and s :: "'w state" and j
  assume "ds \<noteq> []" and "j = pick x s (length ds) mod length ds"
  then have "j < length ds" by simp
  then show "\<And>rt c vs rs s'. ((x, rt, c, vs, take j ds @ drop (Suc j) ds, rs @ [(ds ! j, (r :: error option))], s'),
      (x, rt, c, vs, ds, rs, s)) \<in> measure (\<lambda>(x, rt, c, vs, ds, rs, s). length ds)" for r
    by simp
qed

declare run_units.simps [simp del]

definition runDeps ::
  "'w ext \<Rightarrow> (ctx \<Rightarrow> string \<Rightarrow> 'w state \<Rightarrow> 'w run) \<Rightarrow> ctx \<Rightarrow> Task \<Rightarrow> 'w state \<Rightarrow> 'w run" where
  "runDeps x rt c t s =
     (case handleVariables x (Vars t) (environ s) (world s) of
        Inl err \<Rightarrow> Done (Some err, s)
      | Inr vs \<Rightarrow>
          (case run_units x rt c vs (Deps t) [] s of
             Done (rs, s') \<Rightarrow> Done (Wait rs, s')
           | Panic \<Rightarrow> Panic
           | OutOfFuel \<Rightarrow> OutOfFuel))"

subsection \<open>Running a task\<close>

text \<open>The loop of \<^verbatim>\<open>RunTask\<close> over the indices of \<open>Cmds\<close>.\<close>

fun runCmds ::
  "'w ext \<Rightarrow> (ctx \<Rightarrow> string \<Rightarrow> 'w state \<Rightarrow> 'w run) \<Rightarrow> ctx \<Rightarrow> string \<Rightarrow> Task \<Rightarrow> nat list \<Rightarrow> 'w state \<Rightarrow> 'w run" where
  "runCmds x rt c name t [] s = Done (None, s)"
| "runCmds x rt c name t (i # is) s =
     (case runCommand x rt c t i s of
        Done (Some err, s') \<Rightarrow> Done (Some (taskRunError name err), s')
      | Done (None, s') \<Rightarrow> runCmds x rt c name t is s'
      | Panic \<Rightarrow> Panic
      | OutOfFuel \<Rightarrow> OutOfFuel)"

fun RunTask :: "'w ext \<Rightarrow> globals \<Rightarrow> nat \<Rightarrow> ctx \<Rightarrow> string \<Rightarrow> 'w state \<Rightarrow> 'w run" where
  "RunTask x g 0 c name s = OutOfFuel"
| "RunTask x g (Suc n) c name s =
     (case Tasks g name of
        None \<Rightarrow> Done (Some (taskNotFoundError name), s)
      | Some t \<Rightarrow>
          (case runDeps x (\<lambda>c' name' s'. RunTask x g n c' name' s') c t s of
             Done (Some err, s1) \<Rightarrow> Done (Some err, s1)
           | Done (None, s1) \<Rightarrow>
               if \<not> Force g \<and> isUpToDate x t (world s1)
               then Done (None, emit [UpToDateLogged name] s1)
               else runCmds x (\<lambda>c' name' s'. RunTask x g n c' name' s') c name t
                      [0..<length (Cmds t)] s1
           | Panic \<Rightarrow> Panic
           | OutOfFuel \<Rightarrow> OutOfFuel))"

subsection \<open>The driver\<close>

text \<open>How \<^verbatim>\<open>Run\<close> ends: it returns, or \<^verbatim>\<open>log.Fatal\<close> ends the process with an error
  or with a message.\<close>

datatype exit = Returned | FatalError error | FatalMessage string

text \<open>The last loop of \<^verbatim>\<open>Run\<close>.\<close>

fun runAll :: "'w ext \<Rightarrow> globals \<Rightarrow> nat \<Rightarrow> string list \<Rightarrow> 'w state \<Rightarrow> (exit \<times> 'w state) outcome" where
  "runAll x g n [] s = Done (Returned, s)"
| "runAll x g n (a # as) s =
     (case RunTask x g n Background a s of
        Done (Some err, s') \<Rightarrow> Done (FatalError err, s')
      | Done (None, s') \<Rightarrow> runAll x g n as s'
      | Panic \<Rightarrow> Panic
      | OutOfFuel \<Rightarrow> OutOfFuel)"

text \<open>\<^verbatim>\<open>Run\<close>. \<open>args0\<close> is \<^verbatim>\<open>pflag.Args()\<close>; \<open>g0\<close> holds the flags, and \<open>Tasks\<close> is
  assigned from \<^verbatim>\<open>readTaskfile\<close>. Every \<^verbatim>\<open>RunTask\<close> it calls has the fuel \<open>n\<close>.\<close>

definition Run :: "'w ext \<Rightarrow> globals \<Rightarrow> nat \<Rightarrow> string list \<Rightarrow> 'w state \<Rightarrow> (exit \<times> 'w state) outcome" where
  "Run x g0 n args0 s =
     (let args = (if length args0 = 0 then [''default''] else args0);
          s0 = (if length args0 = 0 then emit [NoArgumentLogged] s else s)
      in
        (case readTaskfile x (world s0) of
           Inl err \<Rightarrow> Done (FatalError err, s0)
         | Inr tasks \<Rightarrow>
             if HasCyclicDep x tasks then Done (FatalMessage ''Cyclic dependency detected'', s0)
             else
               (case find (\<lambda>a. tasks a = None) args of
                  Some a \<Rightarrow> Done (Returned, emit [ErrorPrinted (taskNotFoundError a), HelpPrinted] s0)
                | None \<Rightarrow>
                    if Watch g0
                    then
                      (case WatchTasks x (g0\<lparr>Tasks := tasks\<rparr>) args s0 of
                         Done (Some err, s') \<Rightarrow> Done (FatalError err, s')
                       | Done (None, s') \<Rightarrow> Done (Returned, s')
                       | Panic \<Rightarrow> Panic
                       | OutOfFuel \<Rightarrow> OutOfFuel)
                    else runAll x (g0\<lparr>Tasks := tasks\<rparr>) n args s0)))"

subsection \<open>Traces\<close>

text \<open>\<open>extends P s s'\<close>: the trace of \<open>s'\<close> is the trace of \<open>s\<close> followed by events that
  all satisfy \<open>P\<close>. \<open>keeps P rt\<close>: every call of \<open>rt\<close> that returns has only added such
  events.\<close>

definition extends :: "(event \<Rightarrow> bool) \<Rightarrow> 'w state \<Rightarrow> 'w state \<Rightarrow> bool" where
  "extends P s s' = (\<exists>es. trace s' = trace s @ es \<and> list_all P es)"

definition keeps :: "(event \<Rightarrow> bool) \<Rightarrow> (ctx \<Rightarrow> string \<Rightarrow> 'w state \<Rightarrow> 'w run) \<Rightarrow> bool" where
  "keeps P rt = (\<forall>c nm s r s'. rt c nm s = Done (r, s') \<longrightarrow> extends P s s')"

definition command_events :: "(event \<Rightarrow> bool) \<Rightarrow> bool" where
  "command_events P = ((\<forall>opts out. P (Spawned opts out)) \<and> (\<forall>cmd. P (CommandLogged cmd)))"

text \<open>Every event but the line that \<^verbatim>\<open>RunTask\<close> logs when it skips the commands of a
  task.\<close>

definition not_skip :: "event \<Rightarrow> bool" where
  "not_skip e = (case e of UpToDateLogged nm \<Rightarrow> False | _ \<Rightarrow> True)"


text \<open>\<open>refines rt rt'\<close>: wherever \<open>rt\<close> ends (it returns or panics), \<open>rt'\<close> ends in the same
  way.\<close>

definition refines ::
  "(ctx \<Rightarrow> string \<Rightarrow> 'w state \<Rightarrow> 'w run) \<Rightarrow> (ctx \<Rightarrow> string \<Rightarrow> 'w state \<Rightarrow> 'w run) \<Rightarrow> bool" where
  "refines rt rt' = (\<forall>c nm s. rt c nm s \<noteq> OutOfFuel \<longrightarrow> rt' c nm s = rt c nm s)"

subsection \<open>A small Taskfile\<close>

text \<open>The concrete tasks, external functions and start state at which the theorems below
  are instantiated. Substitution leaves a template as it is and fails on
  \<^verbatim>\<open>${MISSING}\<close>; the command \<^verbatim>\<open>false\<close> fails, as does every command under a cancelled
  context; the world counts the commands run.\<close>

definition no_task :: Task where
  "no_task = \<lparr>Cmds = [], Deps = [], Desc = [], Sources = [], Generates = [], Dir = [],
     Vars = [], Set = [], Env = None\<rparr>"

definition gen_task :: Task where
  "gen_task = no_task\<lparr>Cmds := [''go generate'']\<rparr>"

definition build_task :: Task where
  "build_task = no_task\<lparr>Cmds := [''go build'', ''go vet''], Deps := [''gen''],
     Sources := [''main.go''], Generates := [''main'']\<rparr>"

definition all_task :: Task where
  "all_task = no_task\<lparr>Cmds := [''^gen'']\<rparr>"

definition bad_task :: Task where
  "bad_task = no_task\<lparr>Cmds := [''false'']\<rparr>"

definition top_task :: Task where
  "top_task = no_task\<lparr>Cmds := [''echo top''], Deps := [''bad'', ''gen'']\<rparr>"

definition out_task :: Task where
  "out_task = no_task\<lparr>Cmds := [''echo hello''], Set := ''OUT''\<rparr>"

definition pad_task :: Task where
  "pad_task = no_task\<lparr>Cmds := [''cat padded''], Set := ''OUT''\<rparr>"

definition stale_task :: Task where
  "stale_task = no_task\<lparr>Sources := [''old.src''], Generates := [''new.out'']\<rparr>"

definition demo_tasks :: "string \<rightharpoonup> Task" where
  "demo_tasks =
     [''gen'' \<mapsto> gen_task, ''build'' \<mapsto> build_task, ''all'' \<mapsto> all_task, ''bad'' \<mapsto> bad_task,
      ''top'' \<mapsto> top_task, ''out'' \<mapsto> out_task, ''pad'' \<mapsto> pad_task]"

definition demo :: "nat ext" where
  "demo =
     \<lparr>handleVariables = (\<lambda>vars env w. Inr vars),
      ReplaceVariables =
        (\<lambda>tmpl vs. if tmpl = ''${MISSING}'' then Inl (externalError ''no value'') else Inr tmpl),
      RunCommand = (\<lambda>opts env w.
        (if optCommand opts = ''false'' \<or> optContext opts
         then Some (externalError ''exit status 1'') else None,
         if optCommand opts = ''echo hello'' then ''hello'' @ [CHR 0x0A]
         else if optCommand opts = ''cat padded'' then '' hello'' @ [CHR 0x0A]
         else [],
         Suc w)),
      Glob = (\<lambda>w p. Inr [p]),
      ModTime = (\<lambda>w f. if f = ''main.go'' then Inr 10 else if f = ''main'' then Inr 20
                 else if f = ''old.src'' then Inr 0 else Inr 5),
      pick = (\<lambda>s n. 0),
      readTaskfile = (\<lambda>w. Inr demo_tasks),
      HasCyclicDep = (\<lambda>m. False),
      WatchTasks = (\<lambda>g args s. Done (None, s))\<rparr>"

definition demo_globals :: globals where
  "demo_globals = \<lparr>Force = False, Watch = False, Tasks = demo_tasks\<rparr>"

definition forced :: globals where
  "forced = \<lparr>Force = True, Watch = False, Tasks = demo_tasks\<rparr>"

definition start :: "nat state" where
  "start = \<lparr>world = 0, environ = [(''HOME'', ''/root'')], trace = []\<rparr>"

text \<open>A Taskfile with the cycle \<^verbatim>\<open>ping\<close>, \<^verbatim>\<open>pong\<close>, \<^verbatim>\<open>ping\<close>, and a cycle check that
  finds this cycle.\<close>

definition cyclic_tasks :: "string \<rightharpoonup> Task" where
  "cyclic_tasks =
     [''ping'' \<mapsto> no_task\<lparr>Cmds := [''echo ping''], Deps := [''pong'']\<rparr>,
      ''pong'' \<mapsto> no_task\<lparr>Cmds := [''echo pong''], Deps := [''ping'']\<rparr>]"

definition cyclic_demo :: "nat ext" where
  "cyclic_demo = demo
     \<lparr>readTaskfile := (\<lambda>w. Inr cyclic_tasks),
      HasCyclicDep := (\<lambda>m.
        (case m ''ping'' of
           None \<Rightarrow> False
         | Some t \<Rightarrow>
             (case m ''pong'' of
                None \<Rightarrow> False
              | Some u \<Rightarrow> ''pong'' \<in> set (Deps t) \<and> ''ping'' \<in> set (Deps u))))\<rparr>"

section \<open>Lemmas\<close>

subsection \<open>Strings\<close>

lemma HasPrefix_caret: "HasPrefix cmd ''^'' \<longleftrightarrow> (\<exists>name. cmd = CHR ''^'' # name)"
  by (cases cmd) (auto simp: HasPrefix_def)

lemma TrimPrefix_caret: "TrimPrefix (CHR ''^'' # name) ''^'' = name"
  by (simp add: TrimPrefix_def HasPrefix_def)

lemma strip_front_suffix: "\<exists>l. s = l @ strip_front ps s"
proof (induction ps s rule: strip_front.induct)
  case (1 ps s)
  show ?case
  proof (cases "find (\<lambda>p. p \<noteq> [] \<and> prefix p s) ps")
    case None
    then have "strip_front ps s = s" by (simp add: strip_front.simps)
    then show ?thesis by simp
  next
    case (Some p)
    then have eq: "strip_front ps s = strip_front ps (drop (length p) s)"
      by (subst strip_front.simps) simp
    from "1.IH" [OF Some] obtain l where "drop (length p) s = l @ strip_front ps (drop (length p) s)" ..
    then have "s = (take (length p) s @ l) @ strip_front ps (drop (length p) s)"
      by (metis append_assoc append_take_drop_id)
    with eq show ?thesis by metis
  qed
qed

lemma strip_front_done: "p \<in> set ps \<Longrightarrow> p \<noteq> [] \<Longrightarrow> \<not> prefix p (strip_front ps s)"
proof (induction ps s rule: strip_front.induct)
  case (1 ps s)
  show ?case
  proof (cases "find (\<lambda>p. p \<noteq> [] \<and> prefix p s) ps")
    case None
    then have "strip_front ps s = s" by (simp add: strip_front.simps)
    moreover from None "1.prems" have "\<not> prefix p s" by (auto simp: find_None_iff)
    ultimately show ?thesis by simp
  next
    case (Some q)
    then have "strip_front ps s = strip_front ps (drop (length q) s)"
      by (subst strip_front.simps) simp
    with "1.IH" [OF Some "1.prems"] show ?thesis by simp
  qed
qed

lemma space_runes_nonempty: "p \<in> set space_runes \<Longrightarrow> p \<noteq> []"
  by (auto simp: space_runes_def)

lemma TrimSpace_infix: "\<exists>l r. s = l @ TrimSpace s @ r"
proof -
  obtain l where l: "s = l @ strip_front space_runes s"
    using strip_front_suffix by blast
  obtain m where m: "rev (strip_front space_runes s) = m @ strip_front (map rev space_runes) (rev (strip_front space_runes s))"
    using strip_front_suffix by blast
  then have "strip_front space_runes s = TrimSpace s @ rev m"
    unfolding TrimSpace_def by (metis rev_append rev_rev_ident)
  with l show ?thesis by metis
qed

lemma TrimSpace_no_space:
  assumes "p \<in> set space_runes"
  shows "\<not> prefix p (TrimSpace s)" and "\<not> suffix p (TrimSpace s)"
proof -
  let ?u = "strip_front space_runes s"
  let ?v = "strip_front (map rev space_runes) (rev ?u)"
  from assms have ne: "p \<noteq> []" by (rule space_runes_nonempty)
  obtain m where m: "rev ?u = m @ ?v" using strip_front_suffix by blast
  then have u: "?u = rev ?v @ rev m" by (metis rev_append rev_rev_ident)
  show "\<not> prefix p (TrimSpace s)"
  proof
    assume "prefix p (TrimSpace s)"
    then have "prefix p (rev ?v)" by (simp add: TrimSpace_def)
    then have "prefix p ?u" by (subst u) (rule prefix_prefix)
    with strip_front_done [OF assms ne] show False by blast
  qed
  show "\<not> suffix p (TrimSpace s)"
  proof
    assume "suffix p (TrimSpace s)"
    then have "suffix p (rev ?v)" by (simp add: TrimSpace_def)
    then have "prefix (rev p) ?v" by (simp add: suffix_to_prefix)
    moreover from assms have "rev p \<in> set (map rev space_runes)" by simp
    moreover from ne have "rev p \<noteq> []" by simp
    ultimately show False using strip_front_done by blast
  qed
qed

subsection \<open>The environment\<close>

lemma Getenv_Setenv: "Setenv_ok k v \<Longrightarrow> os_Getenv (os_Setenv k v env) k = Some v"
  by (simp add: os_Getenv_def os_Setenv_def update_conv')

lemma appendEnv_ok:
  "\<forall>(k, v) \<in> set kvs. \<not> isl (ReplaceVariables x k vs) \<and> \<not> isl (ReplaceVariables x v vs) \<Longrightarrow>
   appendEnv x vs kvs envs =
     Inr (envs @ map (\<lambda>(k, v). projr (ReplaceVariables x k vs) @ ''='' @ projr (ReplaceVariables x v vs)) kvs)"
proof (induction kvs arbitrary: envs)
  case Nil
  then show ?case by simp
next
  case (Cons kv kvs)
  obtain k v where kv: "kv = (k, v)" by (cases kv)
  from Cons.prems kv obtain rk rv where
    "ReplaceVariables x k vs = Inr rk" "ReplaceVariables x v vs = Inr rv"
    by (cases "ReplaceVariables x k vs"; cases "ReplaceVariables x v vs") auto
  moreover from Cons.prems have
    "\<forall>(k, v) \<in> set kvs. \<not> isl (ReplaceVariables x k vs) \<and> \<not> isl (ReplaceVariables x v vs)"
    by simp
  ultimately show ?case
    using Cons.IH kv by simp
qed

lemma appendEnv_err:
  "\<exists>(k, v) \<in> set kvs. isl (ReplaceVariables x k vs) \<or> isl (ReplaceVariables x v vs) \<Longrightarrow>
   \<exists>e. appendEnv x vs kvs envs = Inl e"
proof (induction kvs arbitrary: envs)
  case Nil
  then show ?case by simp
next
  case (Cons kv kvs)
  obtain k v where kv: "kv = (k, v)" by (cases kv)
  show ?case
  proof (cases "isl (ReplaceVariables x k vs) \<or> isl (ReplaceVariables x v vs)")
    case True
    then show ?thesis
      using kv by (cases "ReplaceVariables x k vs"; cases "ReplaceVariables x v vs") auto
  next
    case False
    with Cons.prems kv have
      "\<exists>(k, v) \<in> set kvs. isl (ReplaceVariables x k vs) \<or> isl (ReplaceVariables x v vs)"
      by auto
    from Cons.IH [OF this] False kv show ?thesis
      by (cases "ReplaceVariables x k vs"; cases "ReplaceVariables x v vs") auto
  qed
qed

subsection \<open>Modification times\<close>

lemma latest_Max: "ts \<noteq> [] \<Longrightarrow> latest ts = Max (set ts)"
  by (cases ts) (simp_all add: latest_def Max.set_eq_fold [symmetric])

lemma earliest_Min: "ts \<noteq> [] \<Longrightarrow> earliest ts = Min (set ts)"
  by (cases ts) (simp_all add: earliest_def Min.set_eq_fold [symmetric])

subsection \<open>Traces grow\<close>

lemma extends_refl: "extends P s s"
  by (simp add: extends_def)

lemma extends_trans: "extends P s s1 \<Longrightarrow> extends P s1 s2 \<Longrightarrow> extends P s s2"
  by (auto simp: extends_def)

lemma extends_emit: "list_all P es \<Longrightarrow> extends P s (emit es s)"
  by (simp add: extends_def emit_def)

lemma extends_environ: "extends P s s' \<Longrightarrow> extends P s (s'\<lparr>environ := env\<rparr>)"
  by (simp add: extends_def)

lemma spawn_extends:
  assumes "command_events P" and "spawn x opts s = (err, out, s')"
  shows "extends P s s'"
  using assms by (auto simp: command_events_def spawn_def extends_def emit_def split: prod.splits)

lemma runCommand_extends:
  assumes rt: "keeps P rt"
    and ce: "command_events P"
    and run: "runCommand x rt c t i s = Done (r, s')"
  shows "extends P s s'"
proof -
  have a: "extends P s s''" if "spawn x opts (emit [CommandLogged cmd] s) = (err, out, s'')"
    for opts cmd err out s''
  proof -
    from ce have "list_all P [CommandLogged cmd]" by (simp add: command_events_def)
    then have "extends P s (emit [CommandLogged cmd] s)" by (rule extends_emit)
    moreover have "extends P (emit [CommandLogged cmd] s) s''"
      using ce that by (rule spawn_extends)
    ultimately show ?thesis by (rule extends_trans)
  qed
  have b: "extends P s s''" if "spawn x opts s = (err, out, s'')" for opts err out s''
    using ce that by (rule spawn_extends)
  have r: "extends P s s''" if "rt c nm s = Done (r, s'')" for nm r s''
    using rt that by (auto simp: keeps_def)
  from run show ?thesis
    unfolding runCommand_def
    by (auto split: sum.splits if_splits prod.splits option.splits
        intro: extends_refl r a b extends_environ)
qed

lemma runCmds_extends:
  assumes rt: "keeps P rt"
    and ce: "command_events P"
  shows "runCmds x rt c name t is s = Done (r, s') \<Longrightarrow> extends P s s'"
proof (induction "is" arbitrary: s)
  case Nil
  then show ?case by (simp add: extends_refl)
next
  case (Cons i "is")
  from Cons.prems obtain ri s1 where
    c1: "runCommand x rt c t i s = Done (ri, s1)"
    by (auto split: outcome.splits)
  from rt ce c1 have e1: "extends P s s1" by (rule runCommand_extends)
  show ?case
  proof (cases ri)
    case None
    with Cons.prems c1 have "runCmds x rt c name t is s1 = Done (r, s')" by simp
    from e1 Cons.IH [OF this] show ?thesis by (rule extends_trans)
  next
    case (Some err)
    with Cons.prems c1 e1 show ?thesis by simp
  qed
qed

lemma unit_extends:
  assumes rt: "keeps P rt"
    and "unit x rt vs d c s = Done (r, s')"
  shows "extends P s s'"
  using assms by (auto simp: unit_def keeps_def split: sum.splits intro: extends_refl)

lemma run_units_step:
  assumes "ds \<noteq> []" and "run_units x rt c vs ds rs s = Done (rs', s')"
  obtains r s1 where
    "unit x rt vs (ds ! (pick x s (length ds) mod length ds)) (c \<or> Wait rs \<noteq> None) s = Done (r, s1)"
    "run_units x rt c vs
       (take (pick x s (length ds) mod length ds) ds @ drop (Suc (pick x s (length ds) mod length ds)) ds)
       (rs @ [(ds ! (pick x s (length ds) mod length ds), r)]) s1 = Done (rs', s')"
  using assms by (subst (asm) run_units.simps) (auto simp: Let_def split: outcome.splits)

lemma run_units_extends:
  assumes rt: "keeps P rt"
  shows "run_units x rt c vs ds rs s = Done (rs', s') \<Longrightarrow> extends P s s'"
proof (induction "length ds" arbitrary: ds rs s)
  case 0
  then show ?case by (simp add: run_units.simps extends_refl)
next
  case (Suc k)
  let ?j = "pick x s (length ds) mod length ds"
  from Suc.hyps(2) have ne: "ds \<noteq> []" by auto
  then have j: "?j < length ds" by simp
  from ne Suc.prems obtain r s1 where
    u: "unit x rt vs (ds ! ?j) (c \<or> Wait rs \<noteq> None) s = Done (r, s1)" and
    rest: "run_units x rt c vs (take ?j ds @ drop (Suc ?j) ds) (rs @ [(ds ! ?j, r)]) s1 = Done (rs', s')"
    by (rule run_units_step)
  have "k = length (take ?j ds @ drop (Suc ?j) ds)"
    using Suc.hyps(2) j by simp
  from this rest have "extends P s1 s'" by (rule Suc.hyps(1))
  with unit_extends [OF rt u] show ?case
    by (rule extends_trans)
qed

lemma runDeps_extends:
  assumes rt: "keeps P rt"
    and "runDeps x rt c t s = Done (r, s')"
  shows "extends P s s'"
  using assms(2)
  by (auto simp: runDeps_def split: sum.splits outcome.splits
      intro: extends_refl run_units_extends [OF rt])

lemma RunTask_keeps:
  assumes ce: "command_events P"
    and up: "Force g \<or> (\<forall>nm. P (UpToDateLogged nm))"
  shows "keeps P (RunTask x g n)"
proof (induction n)
  case 0
  then show ?case by (simp add: keeps_def)
next
  case (Suc n)
  show ?case
    unfolding keeps_def
  proof (intro allI impI)
    fix c name s r s'
    assume run: "RunTask x g (Suc n) c name s = Done (r, s')"
    show "extends P s s'"
    proof (cases "Tasks g name")
      case None
      with run show ?thesis by (simp add: extends_refl)
    next
      case (Some t)
      from run Some obtain rd s1 where
        d: "runDeps x (RunTask x g n) c t s = Done (rd, s1)"
        by (auto split: outcome.splits)
      from Suc d have e1: "extends P s s1" by (rule runDeps_extends)
      show ?thesis
      proof (cases rd)
        case (Some err)
        with run \<open>Tasks g name = Some t\<close> d e1 show ?thesis by simp
      next
        case None
        show ?thesis
        proof (cases "\<not> Force g \<and> isUpToDate x t (world s1)")
          case True
          with up have "list_all P [UpToDateLogged name]" by simp
          then have "extends P s1 (emit [UpToDateLogged name] s1)"
            by (rule extends_emit)
          with e1 have "extends P s (emit [UpToDateLogged name] s1)"
            by (rule extends_trans)
          with run \<open>Tasks g name = Some t\<close> d None True show ?thesis
            by simp
        next
          case False
          with run \<open>Tasks g name = Some t\<close> d None
          have "runCmds x (RunTask x g n) c name t [0..<length (Cmds t)] s1 = Done (r, s')"
            by auto
          with Suc ce have "extends P s1 s'" by (rule runCmds_extends)
          with e1 show ?thesis by (rule extends_trans)
        qed
      qed
    qed
  qed
qed

subsection \<open>Functions that do not read the files\<close>

lemma appendEnv_files: "appendEnv (x\<lparr>Glob := gl, ModTime := mt\<rparr>) vs kvs envs = appendEnv x vs kvs envs"
  by (induction kvs arbitrary: envs) (auto split: sum.splits)

lemma getEnviron_files: "getEnviron (x\<lparr>Glob := gl, ModTime := mt\<rparr>) = getEnviron x"
  by (intro ext) (simp add: getEnviron_def appendEnv_files split: option.splits)

lemma spawn_files: "spawn (x\<lparr>Glob := gl, ModTime := mt\<rparr>) = spawn x"
  by (intro ext) (simp add: spawn_def)

lemma runCommand_files:
  "runCommand (x\<lparr>Glob := gl, ModTime := mt\<rparr>) rt c t i s = runCommand x rt c t i s"
  unfolding runCommand_def getEnviron_files spawn_files
  by (simp cong: sum.case_cong if_cong)

lemma runCmds_files:
  "runCmds (x\<lparr>Glob := gl, ModTime := mt\<rparr>) rt c name t is s = runCmds x rt c name t is s"
  by (induction "is" arbitrary: s) (auto simp: runCommand_files split: outcome.splits option.splits)

lemma unit_files: "unit (x\<lparr>Glob := gl, ModTime := mt\<rparr>) rt vs d c s = unit x rt vs d c s"
  by (simp add: unit_def)

lemma run_units_files:
  "run_units (x\<lparr>Glob := gl, ModTime := mt\<rparr>) rt c vs ds rs s = run_units x rt c vs ds rs s"
proof (induction "length ds" arbitrary: ds rs s)
  case 0
  then show ?case by (simp add: run_units.simps)
next
  case (Suc k)
  let ?j = "pick x s (length ds) mod length ds"
  from Suc.hyps(2) have ne: "ds \<noteq> []" by auto
  then have "?j < length ds" by simp
  with Suc.hyps(2) have "k = length (take ?j ds @ drop (Suc ?j) ds)" by simp
  note ih = Suc.hyps(1) [OF this]
  show ?case
    unfolding run_units.simps [of "x\<lparr>Glob := gl, ModTime := mt\<rparr>" rt c vs ds rs s]
      run_units.simps [of x rt c vs ds rs s]
    by (auto simp: unit_files ih Let_def split: outcome.splits)
qed

lemma runDeps_files: "runDeps (x\<lparr>Glob := gl, ModTime := mt\<rparr>) rt c t s = runDeps x rt c t s"
  by (auto simp: runDeps_def run_units_files split: sum.splits outcome.splits)

lemma RunTask_files:
  "Force g \<Longrightarrow> RunTask (x\<lparr>Glob := gl, ModTime := mt\<rparr>) g n = RunTask x g n"
proof (induction n)
  case 0
  show ?case by (intro ext) simp
next
  case (Suc n)
  then have "RunTask (x\<lparr>Glob := gl, ModTime := mt\<rparr>) g n = RunTask x g n" by simp
  with \<open>Force g\<close> show ?case
    by (intro ext) (auto simp: runDeps_files runCmds_files split: option.splits outcome.splits)
qed

subsection \<open>Loops\<close>





lemma find_first:
  "list_all (\<lambda>b. \<not> P b) pre \<Longrightarrow> P a \<Longrightarrow> find P (pre @ a # post) = Some a"
  by (induction pre) auto

subsection \<open>Fuel\<close>

text \<open>A call of \<^verbatim>\<open>RunTask\<close> that ends with some fuel ends in the same way with more: the
  fuel only bounds how deep the calls go.\<close>

lemma runCommand_refines:
  assumes "refines rt rt'" and "runCommand x rt c t i s \<noteq> OutOfFuel"
  shows "runCommand x rt' c t i s = runCommand x rt c t i s"
  using assms unfolding runCommand_def refines_def
  by (auto split: sum.splits if_splits prod.splits option.splits)

lemma runCmds_refines:
  assumes "refines rt rt'"
  shows "runCmds x rt c name t is s \<noteq> OutOfFuel \<Longrightarrow>
         runCmds x rt' c name t is s = runCmds x rt c name t is s"
proof (induction "is" arbitrary: s)
  case Nil
  show ?case by simp
next
  case (Cons i "is")
  from Cons.prems have ne: "runCommand x rt c t i s \<noteq> OutOfFuel"
    by (auto split: outcome.splits)
  from assms ne have eq: "runCommand x rt' c t i s = runCommand x rt c t i s"
    by (rule runCommand_refines)
  show ?case
  proof (cases "runCommand x rt c t i s")
    case (Done p)
    obtain r s1 where p: "p = (r, s1)" by (cases p)
    show ?thesis
    proof (cases r)
      case None
      with Done p Cons.prems have "runCmds x rt c name t is s1 \<noteq> OutOfFuel" by simp
      from Cons.IH [OF this] Done p None eq show ?thesis by simp
    next
      case (Some err)
      with Done p eq show ?thesis by simp
    qed
  next
    case Panic
    with eq show ?thesis by simp
  next
    case OutOfFuel
    with ne show ?thesis by simp
  qed
qed

lemma unit_refines:
  assumes "refines rt rt'" and "unit x rt vs d c s \<noteq> OutOfFuel"
  shows "unit x rt' vs d c s = unit x rt vs d c s"
  using assms by (auto simp: unit_def refines_def split: sum.splits)

lemma run_units_refines:
  assumes rf: "refines rt rt'"
  shows "run_units x rt c vs ds rs s \<noteq> OutOfFuel \<Longrightarrow>
         run_units x rt' c vs ds rs s = run_units x rt c vs ds rs s"
proof (induction "length ds" arbitrary: ds rs s)
  case 0
  then show ?case by (simp add: run_units.simps)
next
  case (Suc k)
  let ?j = "pick x s (length ds) mod length ds"
  let ?u = "unit x rt vs (ds ! ?j) (c \<or> Wait rs \<noteq> None) s"
  from Suc.hyps(2) have ne: "ds \<noteq> []" by auto
  then have j: "?j < length ds" by simp
  with Suc.hyps(2) have len: "k = length (take ?j ds @ drop (Suc ?j) ds)" by simp
  have unf: "run_units x f c vs ds rs s =
      (case unit x f vs (ds ! ?j) (c \<or> Wait rs \<noteq> None) s of
         Done (r, s') \<Rightarrow> run_units x f c vs (take ?j ds @ drop (Suc ?j) ds) (rs @ [(ds ! ?j, r)]) s'
       | Panic \<Rightarrow> Panic | OutOfFuel \<Rightarrow> OutOfFuel)" for f
    using ne by (subst run_units.simps) (simp add: Let_def)
  from Suc.prems have une: "?u \<noteq> OutOfFuel"
    by (subst (asm) unf) (auto split: outcome.splits)
  from rf une have ueq: "unit x rt' vs (ds ! ?j) (c \<or> Wait rs \<noteq> None) s = ?u"
    by (rule unit_refines)
  show ?case
  proof (cases ?u)
    case (Done p)
    obtain r s1 where p: "p = (r, s1)" by (cases p)
    from Suc.prems Done p have
      "run_units x rt c vs (take ?j ds @ drop (Suc ?j) ds) (rs @ [(ds ! ?j, r)]) s1 \<noteq> OutOfFuel"
      by (subst (asm) unf) simp
    from Suc.hyps(1) [OF len this] Done p show ?thesis
      unfolding unf [of rt'] unf [of rt] ueq by simp
  next
    case Panic
    then show ?thesis unfolding unf [of rt'] unf [of rt] ueq by simp
  next
    case OutOfFuel
    with une show ?thesis by simp
  qed
qed

lemma runDeps_refines:
  assumes "refines rt rt'" and "runDeps x rt c t s \<noteq> OutOfFuel"
  shows "runDeps x rt' c t s = runDeps x rt c t s"
proof (cases "handleVariables x (Vars t) (environ s) (world s)")
  case (Inl e)
  then show ?thesis by (simp add: runDeps_def)
next
  case (Inr vs)
  with assms(2) have "run_units x rt c vs (Deps t) [] s \<noteq> OutOfFuel"
    by (auto simp: runDeps_def split: outcome.splits)
  from run_units_refines [OF assms(1) this] Inr show ?thesis
    by (simp add: runDeps_def)
qed

lemma RunTask_body_refines:
  assumes rf: "refines rt rt'"
    and ne: "(case runDeps x rt c t s of
               Done (Some err, s1) \<Rightarrow> Done (Some err, s1)
             | Done (None, s1) \<Rightarrow>
                 if \<not> Force g \<and> isUpToDate x t (world s1)
                 then Done (None, emit [UpToDateLogged name] s1)
                 else runCmds x rt c name t [0..<length (Cmds t)] s1
             | Panic \<Rightarrow> Panic
             | OutOfFuel \<Rightarrow> OutOfFuel) \<noteq> OutOfFuel"
  shows "(case runDeps x rt' c t s of
               Done (Some err, s1) \<Rightarrow> Done (Some err, s1)
             | Done (None, s1) \<Rightarrow>
                 if \<not> Force g \<and> isUpToDate x t (world s1)
                 then Done (None, emit [UpToDateLogged name] s1)
                 else runCmds x rt' c name t [0..<length (Cmds t)] s1
             | Panic \<Rightarrow> Panic
             | OutOfFuel \<Rightarrow> OutOfFuel) =
         (case runDeps x rt c t s of
               Done (Some err, s1) \<Rightarrow> Done (Some err, s1)
             | Done (None, s1) \<Rightarrow>
                 if \<not> Force g \<and> isUpToDate x t (world s1)
                 then Done (None, emit [UpToDateLogged name] s1)
                 else runCmds x rt c name t [0..<length (Cmds t)] s1
             | Panic \<Rightarrow> Panic
             | OutOfFuel \<Rightarrow> OutOfFuel)"
proof -
  from ne have dne: "runDeps x rt c t s \<noteq> OutOfFuel"
    by (auto split: outcome.splits)
  from rf dne have deq: "runDeps x rt' c t s = runDeps x rt c t s"
    by (rule runDeps_refines)
  show ?thesis
  proof (cases "runDeps x rt c t s")
    case (Done p)
    obtain rd s1 where p: "p = (rd, s1)" by (cases p)
    show ?thesis
    proof (cases "rd = None \<and> \<not> (\<not> Force g \<and> isUpToDate x t (world s1))")
      case True
      with ne Done p have "runCmds x rt c name t [0..<length (Cmds t)] s1 \<noteq> OutOfFuel"
        by auto
      from runCmds_refines [OF rf this] True Done p show ?thesis
        unfolding deq by auto
    next
      case False
      with Done p show ?thesis
        unfolding deq by (cases rd) auto
    qed
  next
    case Panic
    then show ?thesis unfolding deq by simp
  next
    case OutOfFuel
    with dne show ?thesis by simp
  qed
qed

lemma RunTask_Suc_refines: "refines (RunTask x g n) (RunTask x g (Suc n))"
proof (induction n)
  case 0
  show ?case by (simp add: refines_def)
next
  case (Suc n)
  show ?case
    unfolding refines_def
  proof (intro allI impI)
    fix c name s
    assume ne: "RunTask x g (Suc n) c name s \<noteq> OutOfFuel"
    show "RunTask x g (Suc (Suc n)) c name s = RunTask x g (Suc n) c name s"
    proof (cases "Tasks g name")
      case None
      then show ?thesis by simp
    next
      case (Some t)
      from ne show ?thesis
        unfolding RunTask.simps(2) [of x g "Suc n" c name s] RunTask.simps(2) [of x g n c name s]
          Some option.case
        by (rule RunTask_body_refines [OF Suc])
    qed
  qed
qed

lemma RunTask_more_fuel:
  "RunTask x g n c name s \<noteq> OutOfFuel \<Longrightarrow> RunTask x g (n + k) c name s = RunTask x g n c name s"
proof (induction k)
  case 0
  show ?case by simp
next
  case (Suc k)
  then have "RunTask x g (n + k) c name s \<noteq> OutOfFuel" by simp
  with RunTask_Suc_refines [of x g "n + k"] Suc show ?case
    by (simp add: refines_def del: RunTask.simps)
qed

subsection \<open>Evaluation\<close>

text \<open>The equations that evaluate the model at the small Taskfile.\<close>

lemmas task_defs = no_task_def gen_task_def build_task_def all_task_def bad_task_def top_task_def
  out_task_def pad_task_def stale_task_def demo_tasks_def demo_globals_def forced_def start_def

lemmas run_defs = runDeps_def run_units.simps unit_def runCommand_def getEnviron_def spawn_def
  emit_def HasPrefix_def TrimPrefix_def Wait_def Background_def os_Environ_def os_Setenv_def
  Setenv_ok_def isUpToDate_def getPatternsMaxTime_def getPatternsMinTime_def latest_def
  earliest_def IsZero_def After_def

section \<open>The claims\<close>

subsection \<open>C1\<close>



subsection \<open>C2\<close>



subsection \<open>C3\<close>

text \<open>
  Claim C3, as amended. \<^verbatim>\<open>isUpToDate\<close> holds exactly when \<open>Sources\<close> and \<open>Generates\<close>
  are not empty, both pattern sets are resolved without error, each matches at least one
  file, neither the latest modification time among the files of \<open>Sources\<close> nor the earliest
  among the files of \<open>Generates\<close> is the zero time of Go, and the earliest time of
  \<open>Generates\<close> is strictly after the latest time of \<open>Sources\<close>.
\<close>

theorem isUpToDate_iff:
  "isUpToDate x t w \<longleftrightarrow>
     Sources t \<noteq> [] \<and> Generates t \<noteq> [] \<and>
     (\<exists>ss gs. matched_times x w (Sources t) = Inr ss \<and> matched_times x w (Generates t) = Inr gs \<and>
        ss \<noteq> [] \<and> gs \<noteq> [] \<and> Max (set ss) \<noteq> 0 \<and> Min (set gs) \<noteq> 0 \<and>
        Max (set ss) < Min (set gs))"
proof (cases "Sources t = [] \<or> Generates t = []")
  case True
  then show ?thesis by (auto simp: isUpToDate_def)
next
  case False
  show ?thesis
  proof (cases "matched_times x w (Sources t)")
    case (Inl e)
    with False show ?thesis by (simp add: isUpToDate_def getPatternsMaxTime_def)
  next
    case ss: (Inr ss)
    show ?thesis
    proof (cases "ss = []")
      case True
      with False ss show ?thesis
        by (simp add: isUpToDate_def getPatternsMaxTime_def latest_def IsZero_def)
    next
      case sne: False
      show ?thesis
      proof (cases "matched_times x w (Generates t)")
        case (Inl e)
        with False ss show ?thesis
          by (simp add: isUpToDate_def getPatternsMaxTime_def getPatternsMinTime_def)
      next
        case gs: (Inr gs)
        show ?thesis
        proof (cases "gs = []")
          case True
          with False ss gs show ?thesis
            by (simp add: isUpToDate_def getPatternsMaxTime_def getPatternsMinTime_def
                earliest_def IsZero_def)
        next
          case gne: False
          with False ss gs sne show ?thesis
            by (simp add: isUpToDate_def getPatternsMaxTime_def getPatternsMinTime_def
                latest_Max earliest_Min IsZero_def After_def)
        qed
      qed
    qed
  qed
qed

text \<open>\<^verbatim>\<open>build\<close> is up to date (\<^verbatim>\<open>main\<close> is newer than \<^verbatim>\<open>main.go\<close>); a task with no
  patterns is not, and neither is one whose output is as old as its source.\<close>

theorem isUpToDate_iff_witness:
  "isUpToDate demo build_task 0 \<and> \<not> isUpToDate demo gen_task 0 \<and>
   \<not> isUpToDate demo (build_task\<lparr>Sources := [''main'']\<rparr>) 0"
  using isUpToDate_iff [of demo build_task 0] isUpToDate_iff [of demo gen_task 0]
    isUpToDate_iff [of demo "build_task\<lparr>Sources := [''main'']\<rparr>" 0]
  by (simp add: demo_def task_defs)

text \<open>The claim as it was stated fails where a matched file carries the zero time: the one
  file of \<open>Sources\<close> has the modification time zero and the one file of \<open>Generates\<close> a
  later time, both sets match a file and resolve without error, the earliest generated time
  is strictly after the latest source time, and yet \<^verbatim>\<open>isUpToDate\<close> is false.\<close>

theorem isUpToDate_zero_time_counterexample:
  "Sources stale_task \<noteq> [] \<and> Generates stale_task \<noteq> [] \<and>
   matched_times demo 0 (Sources stale_task) = Inr [0] \<and>
   matched_times demo 0 (Generates stale_task) = Inr [5] \<and>
   Max (set [0 :: time]) < Min (set [5]) \<and>
   \<not> isUpToDate demo stale_task 0"
  by (simp add: demo_def task_defs run_defs)

subsection \<open>C4\<close>

text \<open>
  Claim C4, as amended. In a task with a non-empty \<open>Set\<close>, a command that is run as a
  process (its text does not begin with \<^verbatim>\<open>^\<close>) has its standard output captured in a
  buffer: the command is not logged, and its output is not connected to the standard output
  of the process. When the command succeeds, \<^verbatim>\<open>os.Setenv\<close> is called with the name \<open>Set\<close>
  and the output with the white space at both its ends removed (\<^verbatim>\<open>strings.TrimSpace\<close>),
  and the environment so changed is the one that whatever runs next starts in; when the
  command fails, the environment stays as it was. The value is a part of the output that
  neither begins nor ends with white space; and it is the value of the variable when
  \<^verbatim>\<open>os.Setenv\<close> accepts the name and the value.
\<close>

theorem runCommand_Set:
  assumes "Set t \<noteq> []"
    and "handleVariables x (Vars t) (environ s) (world s) = Inr vs"
    and "i < length (Cmds t)"
    and "ReplaceVariables x (Cmds t ! i) vs = Inr cmd"
    and "\<not> HasPrefix cmd ''^''"
    and "ReplaceVariables x (Dir t) vs = Inr dir"
    and "getEnviron x t vs s = Inr envs"
    and "RunCommand x \<lparr>optContext = c, optCommand = cmd, optDir = dir, optEnv = envs,
           optStdout = buff\<rparr> (environ s) (world s) = (err, out, w)"
  shows "runCommand x rt c t i s =
           Done (err,
             \<lparr>world = w,
              environ = (case err of
                           None \<Rightarrow> os_Setenv (Set t) (TrimSpace out) (environ s)
                         | Some e \<Rightarrow> environ s),
              trace = trace s @ [Spawned \<lparr>optContext = c, optCommand = cmd, optDir = dir,
                optEnv = envs, optStdout = buff\<rparr> out]\<rparr>) \<and>
         (Setenv_ok (Set t) (TrimSpace out) \<longrightarrow>
            os_Getenv (os_Setenv (Set t) (TrimSpace out) (environ s)) (Set t) = Some (TrimSpace out)) \<and>
         (\<exists>l r. out = l @ TrimSpace out @ r) \<and>
         list_all (\<lambda>p. \<not> prefix p (TrimSpace out) \<and> \<not> suffix p (TrimSpace out)) space_runes"
proof (intro conjI impI)
  from assms show "runCommand x rt c t i s =
           Done (err,
             \<lparr>world = w,
              environ = (case err of
                           None \<Rightarrow> os_Setenv (Set t) (TrimSpace out) (environ s)
                         | Some e \<Rightarrow> environ s),
              trace = trace s @ [Spawned \<lparr>optContext = c, optCommand = cmd, optDir = dir,
                optEnv = envs, optStdout = buff\<rparr> out]\<rparr>)"
    by (cases err) (simp_all add: runCommand_def spawn_def emit_def)
  show "\<exists>l r. out = l @ TrimSpace out @ r" by (rule TrimSpace_infix)
  show "list_all (\<lambda>p. \<not> prefix p (TrimSpace out) \<and> \<not> suffix p (TrimSpace out)) space_runes"
    using TrimSpace_no_space by (simp add: list_all_iff)
next
  assume "Setenv_ok (Set t) (TrimSpace out)"
  then show "os_Getenv (os_Setenv (Set t) (TrimSpace out) (environ s)) (Set t) = Some (TrimSpace out)"
    by (rule Getenv_Setenv)
qed

text \<open>A command that prints \<^verbatim>\<open>hello\<close> and a newline sets \<^verbatim>\<open>OUT\<close> to \<^verbatim>\<open>hello\<close>.\<close>

theorem runCommand_Set_witness:
  "runCommand demo (RunTask demo demo_globals 0) False out_task 0 start =
     Done (None,
       \<lparr>world = 1, environ = [(''HOME'', ''/root''), (''OUT'', ''hello'')],
        trace = [Spawned \<lparr>optContext = False, optCommand = ''echo hello'', optDir = [],
          optEnv = None, optStdout = buff\<rparr> (''hello'' @ [CHR 0x0A])]\<rparr>) \<and>
   os_Getenv [(''HOME'', ''/root''), (''OUT'', ''hello'')] ''OUT'' = Some ''hello''"
proof -
  have 1: "Set out_task \<noteq> []" by (simp add: task_defs)
  have 2: "handleVariables demo (Vars out_task) (environ start) (world start) = Inr []"
    by (simp add: demo_def task_defs)
  have 3: "0 < length (Cmds out_task)" by (simp add: task_defs)
  have 4: "ReplaceVariables demo (Cmds out_task ! 0) [] = Inr ''echo hello''"
    by (simp add: demo_def task_defs)
  have 5: "\<not> HasPrefix ''echo hello'' ''^''" by (simp add: HasPrefix_def)
  have 6: "ReplaceVariables demo (Dir out_task) [] = Inr []"
    by (simp add: demo_def task_defs)
  have 7: "getEnviron demo out_task [] start = Inr None"
    by (simp add: getEnviron_def task_defs)
  have 8: "RunCommand demo \<lparr>optContext = False, optCommand = ''echo hello'', optDir = [],
       optEnv = None, optStdout = buff\<rparr> (environ start) (world start) =
       (None, ''hello'' @ [CHR 0x0A], 1)"
    by (simp add: demo_def start_def)
  from runCommand_Set [OF 1 2 3 4 5 6 7 8, of "RunTask demo demo_globals 0"] show ?thesis
    by (simp add: start_def out_task_def no_task_def os_Setenv_def Setenv_ok_def os_Getenv_def
        TrimSpace_def strip_front.simps space_runes_def)
qed

text \<open>The claim as it was stated fails for output that begins with white space: a command
  that prints a space, \<^verbatim>\<open>hello\<close> and a newline sets \<^verbatim>\<open>OUT\<close> to \<^verbatim>\<open>hello\<close>, while
  trimming the trailing white space only would have kept the leading space.\<close>

theorem Set_trims_leading_space_counterexample:
  "runCommand demo (RunTask demo demo_globals 0) False pad_task 0 start =
     Done (None,
       \<lparr>world = 1, environ = [(''HOME'', ''/root''), (''OUT'', ''hello'')],
        trace = [Spawned \<lparr>optContext = False, optCommand = ''cat padded'', optDir = [],
          optEnv = None, optStdout = buff\<rparr> ('' hello'' @ [CHR 0x0A])]\<rparr>) \<and>
   trim_trailing_space ('' hello'' @ [CHR 0x0A]) = '' hello''"
  by (simp add: demo_def task_defs run_defs TrimSpace_def trim_trailing_space_def
      strip_front.simps space_runes_def)

subsection \<open>C5\<close>

text \<open>
  Claim C5. When the substituted text of a command begins with \<^verbatim>\<open>^\<close>, \<^verbatim>\<open>runCommand\<close>
  is the call of \<^verbatim>\<open>RunTask\<close> (here \<open>rt\<close>) on the rest of the text, with the same context
  and in the same state: it returns what that call returns, and spawns no process of its
  own.
\<close>

theorem runCommand_subtask:
  assumes "handleVariables x (Vars t) (environ s) (world s) = Inr vs"
    and "i < length (Cmds t)"
    and "ReplaceVariables x (Cmds t ! i) vs = Inr cmd"
    and "HasPrefix cmd ''^''"
  shows "runCommand x rt c t i s = rt c (tl cmd) s"
  using assms by (auto simp: runCommand_def HasPrefix_caret TrimPrefix_caret)

text \<open>The command \<^verbatim>\<open>^gen\<close> of the task \<^verbatim>\<open>all\<close> is the run of the task \<^verbatim>\<open>gen\<close>.\<close>

theorem runCommand_subtask_witness:
  "runCommand demo (RunTask demo demo_globals 1) False all_task 0 start =
     RunTask demo demo_globals 1 False ''gen'' start \<and>
   RunTask demo demo_globals 1 False ''gen'' start =
     Done (None,
       \<lparr>world = 1, environ = [(''HOME'', ''/root'')],
        trace = [CommandLogged ''go generate'',
          Spawned \<lparr>optContext = False, optCommand = ''go generate'', optDir = [],
            optEnv = None, optStdout = osStdout\<rparr> []]\<rparr>)"
proof -
  have 1: "handleVariables demo (Vars all_task) (environ start) (world start) = Inr []"
    by (simp add: demo_def task_defs)
  have 2: "0 < length (Cmds all_task)" by (simp add: task_defs)
  have 3: "ReplaceVariables demo (Cmds all_task ! 0) [] = Inr ''^gen''"
    by (simp add: demo_def task_defs)
  have 4: "HasPrefix ''^gen'' ''^''" by (simp add: HasPrefix_def)
  have "RunTask demo demo_globals 1 False ''gen'' start =
     Done (None,
       \<lparr>world = 1, environ = [(''HOME'', ''/root'')],
        trace = [CommandLogged ''go generate'',
          Spawned \<lparr>optContext = False, optCommand = ''go generate'', optDir = [],
            optEnv = None, optStdout = osStdout\<rparr> []]\<rparr>)"
    by (simp add: demo_def task_defs run_defs)
  with runCommand_subtask [OF 1 2 3 4, of "RunTask demo demo_globals 1" False] show ?thesis
    by simp
qed

subsection \<open>C6\<close>

text \<open>
  Claim C6. With \<open>Force\<close> set, \<^verbatim>\<open>RunTask\<close> does not depend on the files: whatever
  globbing and \<^verbatim>\<open>os.Stat\<close> answer, it does the same. In the whole run of a task (the
  task, its dependencies and its sub-tasks) no task is reported as up to date, and a task
  whose dependencies have returned no error has its commands run.
\<close>

theorem Force_never_skips:
  assumes "Force g"
  shows "RunTask (x\<lparr>Glob := gl, ModTime := mt\<rparr>) g n c name s = RunTask x g n c name s \<and>
         (\<forall>r s'. RunTask x g n c name s = Done (r, s') \<longrightarrow> extends not_skip s s') \<and>
         (\<forall>t s1. Tasks g name = Some t \<and> runDeps x (RunTask x g n) c t s = Done (None, s1) \<longrightarrow>
            RunTask x g (Suc n) c name s = runCmds x (RunTask x g n) c name t [0..<length (Cmds t)] s1)"
proof (intro conjI allI impI)
  from assms show "RunTask (x\<lparr>Glob := gl, ModTime := mt\<rparr>) g n c name s = RunTask x g n c name s"
    by (simp add: RunTask_files)
next
  fix r s'
  assume run: "RunTask x g n c name s = Done (r, s')"
  have "command_events not_skip" by (simp add: command_events_def not_skip_def)
  moreover from assms have "Force g \<or> (\<forall>nm. not_skip (UpToDateLogged nm))" by simp
  ultimately have "keeps not_skip (RunTask x g n)" by (rule RunTask_keeps)
  with run show "extends not_skip s s'" by (auto simp: keeps_def)
next
  fix t s1
  assume "Tasks g name = Some t \<and> runDeps x (RunTask x g n) c t s = Done (None, s1)"
  with assms show "RunTask x g (Suc n) c name s = runCmds x (RunTask x g n) c name t [0..<length (Cmds t)] s1"
    by simp
qed

text \<open>With \<open>Force\<close> the commands of \<^verbatim>\<open>build\<close> run, although the task is up to date, and
  the same happens when no pattern can be resolved; without \<open>Force\<close> they are skipped.\<close>

theorem Force_never_skips_witness:
  "RunTask (demo\<lparr>Glob := (\<lambda>w p. Inl (externalError ''bad pattern'')), ModTime := (\<lambda>w f. Inr 0)\<rparr>)
     forced 2 False ''build'' start = RunTask demo forced 2 False ''build'' start \<and>
   RunTask demo forced 2 False ''build'' start =
     Done (None,
       \<lparr>world = 3, environ = [(''HOME'', ''/root'')],
        trace = [CommandLogged ''go generate'',
          Spawned \<lparr>optContext = False, optCommand = ''go generate'', optDir = [],
            optEnv = None, optStdout = osStdout\<rparr> [],
          CommandLogged ''go build'',
          Spawned \<lparr>optContext = False, optCommand = ''go build'', optDir = [],
            optEnv = None, optStdout = osStdout\<rparr> [],
          CommandLogged ''go vet'',
          Spawned \<lparr>optContext = False, optCommand = ''go vet'', optDir = [],
            optEnv = None, optStdout = osStdout\<rparr> []]\<rparr>) \<and>
   RunTask demo demo_globals 2 False ''build'' start =
     Done (None,
       \<lparr>world = 1, environ = [(''HOME'', ''/root'')],
        trace = [CommandLogged ''go generate'',
          Spawned \<lparr>optContext = False, optCommand = ''go generate'', optDir = [],
            optEnv = None, optStdout = osStdout\<rparr> [],
          UpToDateLogged ''build'']\<rparr>)"
proof -
  have f: "Force forced" by (simp add: forced_def)
  have r: "RunTask demo forced 2 False ''build'' start =
     Done (None,
       \<lparr>world = 3, environ = [(''HOME'', ''/root'')],
        trace = [CommandLogged ''go generate'',
          Spawned \<lparr>optContext = False, optCommand = ''go generate'', optDir = [],
            optEnv = None, optStdout = osStdout\<rparr> [],
          CommandLogged ''go build'',
          Spawned \<lparr>optContext = False, optCommand = ''go build'', optDir = [],
            optEnv = None, optStdout = osStdout\<rparr> [],
          CommandLogged ''go vet'',
          Spawned \<lparr>optContext = False, optCommand = ''go vet'', optDir = [],
            optEnv = None, optStdout = osStdout\<rparr> []]\<rparr>)"
    by (simp add: demo_def task_defs run_defs eval_nat_numeral)
  have u: "RunTask demo demo_globals 2 False ''build'' start =
     Done (None,
       \<lparr>world = 1, environ = [(''HOME'', ''/root'')],
        trace = [CommandLogged ''go generate'',
          Spawned \<lparr>optContext = False, optCommand = ''go generate'', optDir = [],
            optEnv = None, optStdout = osStdout\<rparr> [],
          UpToDateLogged ''build'']\<rparr>)"
    by (simp add: demo_def task_defs run_defs eval_nat_numeral)
  from Force_never_skips [OF f, where gl = "\<lambda>w p. Inl (externalError ''bad pattern'')"
      and mt = "\<lambda>w f. Inr 0" and x = demo and n = 2 and c = False and name = "''build''"
      and s = start]
  have "RunTask (demo\<lparr>Glob := (\<lambda>w p. Inl (externalError ''bad pattern'')), ModTime := (\<lambda>w f. Inr 0)\<rparr>)
     forced 2 False ''build'' start = RunTask demo forced 2 False ''build'' start"
    by (rule conjunct1)
  with r u show ?thesis by simp
qed

subsection \<open>C7\<close>

text \<open>
  Claim C7, as amended. When the Taskfile has been read, it has no cyclic dependency, and
  \<open>a\<close> is the first requested name with no entry in the registry, \<^verbatim>\<open>Run\<close> prints the
  error that the task \<open>a\<close> was not found, prints the help, and returns: no requested task
  is run, neither before nor after \<open>a\<close> in the list.
\<close>

theorem Run_task_not_found:
  assumes "readTaskfile x (world s) = Inr tasks"
    and "\<not> HasCyclicDep x tasks"
    and "(if args0 = [] then [''default''] else args0) = pre @ a # post"
    and "list_all (\<lambda>b. tasks b \<noteq> None) pre"
    and "tasks a = None"
  shows "Run x g0 n args0 s =
           Done (Returned,
             emit [ErrorPrinted (taskNotFoundError a), HelpPrinted]
               (if args0 = [] then emit [NoArgumentLogged] s else s))"
proof -
  from assms(4,5) have "find (\<lambda>b. tasks b = None) (pre @ a # post) = Some a"
    by (intro find_first) simp_all
  with assms(3) have f: "find (\<lambda>b. tasks b = None) (if args0 = [] then [''default''] else args0) = Some a"
    by simp
  from assms(1) have r: "readTaskfile x (world (emit [NoArgumentLogged] s)) = Inr tasks"
    by (simp add: emit_def)
  show ?thesis
  proof (cases "args0 = []")
    case True
    with f r assms(2) show ?thesis by (simp add: Run_def)
  next
    case False
    with f assms(1,2) show ?thesis by (simp add: Run_def)
  qed
qed

text \<open>Of the requests \<^verbatim>\<open>gen\<close>, \<^verbatim>\<open>nope\<close> and \<^verbatim>\<open>build\<close>, the second has no entry:
  \<^verbatim>\<open>Run\<close> prints the error and the help, and nothing else happens.\<close>

theorem Run_task_not_found_witness:
  "Run demo demo_globals 3 [''gen'', ''nope'', ''build''] start =
     Done (Returned, start\<lparr>trace := [ErrorPrinted (taskNotFoundError ''nope''), HelpPrinted]\<rparr>)"
proof -
  have 1: "readTaskfile demo (world start) = Inr demo_tasks" by (simp add: demo_def)
  have 2: "\<not> HasCyclicDep demo demo_tasks" by (simp add: demo_def)
  have 3: "(if [''gen'', ''nope'', ''build''] = [] then [''default''] else [''gen'', ''nope'', ''build''])
      = [''gen''] @ ''nope'' # [''build'']" by simp
  have 4: "list_all (\<lambda>b. demo_tasks b \<noteq> None) [''gen'']" by (simp add: demo_tasks_def)
  have 5: "demo_tasks ''nope'' = None" by (simp add: demo_tasks_def)
  from Run_task_not_found [OF 1 2 3 4 5, of demo_globals 3] show ?thesis
    by (simp add: emit_def start_def)
qed

text \<open>The claim as it was stated fails: requested alone, \<^verbatim>\<open>gen\<close> runs its command;
  requested together with the unknown \<^verbatim>\<open>nope\<close>, it is not run at all.\<close>

theorem Run_other_entries_counterexample:
  "Run demo demo_globals 3 [''gen''] start =
     Done (Returned,
       \<lparr>world = 1, environ = [(''HOME'', ''/root'')],
        trace = [CommandLogged ''go generate'',
          Spawned \<lparr>optContext = False, optCommand = ''go generate'', optDir = [],
            optEnv = None, optStdout = osStdout\<rparr> []]\<rparr>) \<and>
   Run demo demo_globals 3 [''gen'', ''nope''] start =
     Done (Returned,
       \<lparr>world = 0, environ = [(''HOME'', ''/root'')],
        trace = [ErrorPrinted (taskNotFoundError ''nope''), HelpPrinted]\<rparr>)"
  by (simp add: Run_def demo_def task_defs run_defs eval_nat_numeral)

subsection \<open>C8\<close>

text \<open>
  Claim C8. When the cycle check finds a cyclic dependency in the registry that was read,
  \<^verbatim>\<open>Run\<close> ends with the fatal message \<^verbatim>\<open>Cyclic dependency detected\<close>, whatever the
  requested names, the flags and the fuel are: \<^verbatim>\<open>RunTask\<close> is not called, the world and
  the environment are as they were, and the trace has grown by at most the line logged
  when no argument was given.
\<close>

theorem Run_cyclic:
  assumes "readTaskfile x (world s) = Inr tasks"
    and "HasCyclicDep x tasks"
  shows "\<exists>s'. Run x g0 n args0 s = Done (FatalMessage ''Cyclic dependency detected'', s') \<and>
           world s' = world s \<and> environ s' = environ s \<and>
           trace s' = trace s @ (if args0 = [] then [NoArgumentLogged] else [])"
proof (cases "args0 = []")
  case True
  from assms(1) have "readTaskfile x (world (emit [NoArgumentLogged] s)) = Inr tasks"
    by (simp add: emit_def)
  with True assms(2) show ?thesis by (simp add: Run_def emit_def)
next
  case False
  with assms show ?thesis by (simp add: Run_def)
qed

text \<open>With the cyclic Taskfile, \<^verbatim>\<open>Run\<close> ends fatally in the start state, with or without
  arguments.\<close>

theorem Run_cyclic_witness:
  "Run cyclic_demo demo_globals 5 [''ping''] start =
     Done (FatalMessage ''Cyclic dependency detected'', start) \<and>
   Run cyclic_demo demo_globals 5 [] start =
     Done (FatalMessage ''Cyclic dependency detected'', start\<lparr>trace := [NoArgumentLogged]\<rparr>)"
proof -
  have 1: "readTaskfile cyclic_demo (world start) = Inr cyclic_tasks"
    by (simp add: cyclic_demo_def)
  have 2: "HasCyclicDep cyclic_demo cyclic_tasks"
    by (simp add: cyclic_demo_def cyclic_tasks_def no_task_def)
  from Run_cyclic [OF 1 2, of demo_globals 5 "[''ping'']"] Run_cyclic [OF 1 2, of demo_globals 5 "[]"]
  show ?thesis by (auto simp: start_def)
qed

subsection \<open>C9\<close>

text \<open>
  Claim C9. When the substituted text of a command begins with \<^verbatim>\<open>^\<close>, \<^verbatim>\<open>runCommand\<close>
  does the same whatever \<open>Dir\<close>, \<open>Set\<close> and \<open>Env\<close> of the invoking task are, also when the
  substitution into \<open>Dir\<close> or \<open>Env\<close> would fail.
\<close>

theorem runCommand_subtask_frame:
  assumes "handleVariables x (Vars t) (environ s) (world s) = Inr vs"
    and "i < length (Cmds t)"
    and "ReplaceVariables x (Cmds t ! i) vs = Inr cmd"
    and "HasPrefix cmd ''^''"
  shows "runCommand x rt c (t\<lparr>Dir := dir', Set := set', Env := env'\<rparr>) i s = runCommand x rt c t i s"
  using assms by (auto simp: runCommand_def HasPrefix_caret TrimPrefix_caret)

text \<open>The command \<^verbatim>\<open>^gen\<close> does the same in a task whose \<open>Dir\<close> and \<open>Env\<close> cannot be
  substituted and whose \<open>Set\<close> is not empty.\<close>

theorem runCommand_subtask_frame_witness:
  "runCommand demo (RunTask demo demo_globals 1) False
     (all_task\<lparr>Dir := ''${MISSING}'', Set := ''OUT'', Env := Some [(''K'', ''${MISSING}'')]\<rparr>) 0 start =
   runCommand demo (RunTask demo demo_globals 1) False all_task 0 start"
proof -
  have 1: "handleVariables demo (Vars all_task) (environ start) (world start) = Inr []"
    by (simp add: demo_def task_defs)
  have 2: "0 < length (Cmds all_task)" by (simp add: task_defs)
  have 3: "ReplaceVariables demo (Cmds all_task ! 0) [] = Inr ''^gen''"
    by (simp add: demo_def task_defs)
  have 4: "HasPrefix ''^gen'' ''^''" by (simp add: HasPrefix_def)
  from runCommand_subtask_frame [OF 1 2 3 4] show ?thesis .
qed

subsection \<open>C10\<close>

text \<open>
  Claim C10. For a nil \<open>Env\<close>, \<^verbatim>\<open>getEnviron\<close> returns a nil list and no error. For a
  non-nil \<open>Env\<close> it returns an error exactly when the substitution into some key or some
  value fails; otherwise it returns the environment of the process, as \<^verbatim>\<open>os.Environ\<close>
  lists it, followed by one \<^verbatim>\<open>key=value\<close> entry for each pair of \<open>Env\<close>, key and value
  substituted.
\<close>

theorem getEnviron_result:
  "(Env t = None \<longrightarrow> getEnviron x t vs s = Inr None) \<and>
   (\<forall>kvs. Env t = Some kvs \<longrightarrow>
      ((\<exists>e. getEnviron x t vs s = Inl e) \<longleftrightarrow>
         (\<exists>(k, v) \<in> set kvs. isl (ReplaceVariables x k vs) \<or> isl (ReplaceVariables x v vs))) \<and>
      ((\<forall>(k, v) \<in> set kvs. \<not> isl (ReplaceVariables x k vs) \<and> \<not> isl (ReplaceVariables x v vs)) \<longrightarrow>
         getEnviron x t vs s =
           Inr (Some (os_Environ (environ s) @
             map (\<lambda>(k, v). projr (ReplaceVariables x k vs) @ ''='' @ projr (ReplaceVariables x v vs)) kvs))))"
proof (intro conjI allI impI)
  assume "Env t = None"
  then show "getEnviron x t vs s = Inr None" by (simp add: getEnviron_def)
next
  fix kvs
  assume e: "Env t = Some kvs"
  show "(\<exists>e. getEnviron x t vs s = Inl e) \<longleftrightarrow>
         (\<exists>(k, v) \<in> set kvs. isl (ReplaceVariables x k vs) \<or> isl (ReplaceVariables x v vs))"
  proof
    assume l: "\<exists>e. getEnviron x t vs s = Inl e"
    show "\<exists>(k, v) \<in> set kvs. isl (ReplaceVariables x k vs) \<or> isl (ReplaceVariables x v vs)"
    proof (rule ccontr)
      assume "\<not> ?thesis"
      then have "\<forall>(k, v) \<in> set kvs. \<not> isl (ReplaceVariables x k vs) \<and> \<not> isl (ReplaceVariables x v vs)"
        by auto
      from appendEnv_ok [OF this] e l show False by (simp add: getEnviron_def)
    qed
  next
    assume "\<exists>(k, v) \<in> set kvs. isl (ReplaceVariables x k vs) \<or> isl (ReplaceVariables x v vs)"
    from appendEnv_err [OF this, of "os_Environ (environ s)"] e
    show "\<exists>e. getEnviron x t vs s = Inl e" by (auto simp: getEnviron_def)
  qed
next
  fix kvs
  assume e: "Env t = Some kvs"
    and "\<forall>(k, v) \<in> set kvs. \<not> isl (ReplaceVariables x k vs) \<and> \<not> isl (ReplaceVariables x v vs)"
  from appendEnv_ok [OF this(2)] e
  show "getEnviron x t vs s =
           Inr (Some (os_Environ (environ s) @
             map (\<lambda>(k, v). projr (ReplaceVariables x k vs) @ ''='' @ projr (ReplaceVariables x v vs)) kvs))"
    by (simp add: getEnviron_def)
qed

text \<open>A nil \<open>Env\<close>, an \<open>Env\<close> of two pairs, and an \<open>Env\<close> with a value that cannot be
  substituted.\<close>

theorem getEnviron_result_witness:
  "getEnviron demo no_task [] start = Inr None \<and>
   getEnviron demo (no_task\<lparr>Env := Some [(''A'', ''1''), (''B'', ''2'')]\<rparr>) [] start =
     Inr (Some [''HOME=/root'', ''A=1'', ''B=2'']) \<and>
   (\<exists>e. getEnviron demo (no_task\<lparr>Env := Some [(''A'', ''1''), (''B'', ''${MISSING}'')]\<rparr>) [] start = Inl e)"
  using getEnviron_result [of no_task demo "[]" start]
    getEnviron_result [of "no_task\<lparr>Env := Some [(''A'', ''1''), (''B'', ''2'')]\<rparr>" demo "[]" start]
    getEnviron_result [of "no_task\<lparr>Env := Some [(''A'', ''1''), (''B'', ''${MISSING}'')]\<rparr>" demo "[]" start]
  by (simp add: no_task_def demo_def start_def os_Environ_def)

end
